theory Spec2Isabelle
  imports Complex_Main "HOL-Library.AList"
begin

section \<open>Python values, exceptions and the library functions the module calls\<close>

text \<open>
  The module \<^verbatim>\<open>src/chain/blockchain_client.py\<close> is dynamically typed. The values it
  handles are strings, byte strings, floats (the results of \<^verbatim>\<open>time()\<close>, amounts), integers
  and the hash objects of \<^verbatim>\<open>Crypto.Hash.SHA\<close>. Exceptions are values of \<open>error\<close>; a
  computation that may raise returns \<open>error + 'a\<close>, with \<open>Inl\<close> for the exception.
\<close>

datatype error =
    TypeError
  | AttributeError
  | KeyError string
  | IndexError
  | ValueError
  | ConnectionError
  | JSONDecodeError

datatype pyval =
    Str string
  | Bytes string
  | Float real
  | Int int
  | SHA1Hash string

text \<open>An \<^verbatim>\<open>OrderedDict\<close> with string keys: the items in insertion order.\<close>

type_synonym transaction = "(string \<times> pyval) list"

text \<open>A block is the dictionary built in \<^verbatim>\<open>create_block_and_add_to_chain\<close>.\<close>

record block =
  block_number :: nat
  timestamp :: real
  transactions :: "transaction list"
  nonce :: int
  previous_hash :: string

text \<open>
  What \<^verbatim>\<open>Blockchain.hash\<close> can be handed: a block dictionary, or a bound method
  (the value of \<^verbatim>\<open>self.last_block\<close> when the method is not called).
\<close>

datatype pyobj =
    Dict block
  | BoundMethod string

text \<open>
  The functions of \<^verbatim>\<open>hashlib\<close>, \<^verbatim>\<open>json\<close>, \<^verbatim>\<open>binascii\<close>, \<^verbatim>\<open>Crypto\<close>, \<^verbatim>\<open>urllib\<close> and the
  built-in \<^verbatim>\<open>str\<close> are not part of the module; they are parameters of the model.
  \<open>urlparse\<close> gives the pair (netloc, path) of the parsed URL. \<^verbatim>\<open>json.dumps\<close> raises on
  a block that holds a value it cannot serialise, and \<^verbatim>\<open>signer.sign\<close> raises on a key
  without a private part, so both return \<open>error + string\<close>.
\<close>

record library =
  sha256_hexdigest :: "string \<Rightarrow> string"
  json_dumps_sorted :: "block \<Rightarrow> error + string"
  str_transactions :: "transaction list \<Rightarrow> string"
  str_dict :: "transaction \<Rightarrow> string"
  str_int :: "int \<Rightarrow> string"
  unhexlify :: "string \<Rightarrow> error + string"
  hexlify :: "string \<Rightarrow> string"
  RSA_importKey :: "string \<Rightarrow> error + string"
  PKCS1_sign :: "string \<Rightarrow> pyval \<Rightarrow> error + string"
  PKCS1_verify :: "string \<Rightarrow> pyval \<Rightarrow> string \<Rightarrow> bool"
  urlparse :: "string \<Rightarrow> string \<times> string"

text \<open>
  \<^verbatim>\<open>SHA.new(data)\<close> hashes bytes and rejects a \<^verbatim>\<open>str\<close>; \<^verbatim>\<open>x.encode('utf-8')\<close> exists on a
  \<^verbatim>\<open>str\<close> only; \<^verbatim>\<open>'lit' + x\<close> concatenates when \<open>x\<close> is a \<^verbatim>\<open>str\<close> and raises
  \<^verbatim>\<open>TypeError\<close> otherwise.
\<close>

definition SHA_new :: "pyval \<Rightarrow> error + pyval" where
  "SHA_new d = (case d of Bytes b \<Rightarrow> Inr (SHA1Hash b) | _ \<Rightarrow> Inl TypeError)"

definition encode_utf8 :: "pyval \<Rightarrow> error + pyval" where
  "encode_utf8 d = (case d of Str s \<Rightarrow> Inr (Bytes s) | _ \<Rightarrow> Inl AttributeError)"

definition str_concat :: "string \<Rightarrow> pyval \<Rightarrow> error + string" where
  "str_concat a v = (case v of Str b \<Rightarrow> Inr (a @ b) | _ \<Rightarrow> Inl TypeError)"

section \<open>Constants\<close>

definition MINING_DIFFICULTY :: nat where
  "MINING_DIFFICULTY = 2"

definition MINING_SENDER :: string where
  "MINING_SENDER = ''VOIDCOIN''"

section \<open>class Transaction\<close>

record Transaction =
  sender_address :: string
  sender_private_key :: string
  recipient_address :: string
  transaction_timestamp :: real
  amount :: pyval

definition to_dict :: "Transaction \<Rightarrow> transaction" where
  "to_dict t =
     [(''sender_address'', Str (sender_address t)),
      (''recipient_address'', Str (recipient_address t)),
      (''amount'', amount t)]"

definition sign_transaction :: "library \<Rightarrow> Transaction \<Rightarrow> error + string" where
  "sign_transaction L t =
     (case unhexlify L (sender_private_key t) of Inl e \<Rightarrow> Inl e | Inr kb \<Rightarrow>
     (case RSA_importKey L kb of Inl e \<Rightarrow> Inl e | Inr private_key \<Rightarrow>
     (case encode_utf8 (Str (str_dict L (to_dict t))) of Inl e \<Rightarrow> Inl e | Inr data \<Rightarrow>
     (case SHA_new data of Inl e \<Rightarrow> Inl e | Inr h \<Rightarrow>
     (case PKCS1_sign L private_key h of Inl e \<Rightarrow> Inl e | Inr sg \<Rightarrow>
      Inr (hexlify L sg))))))"

section \<open>class Blockchain\<close>

record blockchain =
  self_transactions :: "transaction list"
  self_chain :: "block list"
  self_nodes :: "(string \<times> pyval) list"
  self_node_id :: string

text \<open>\<^verbatim>\<open>create_block_and_add_to_chain\<close>; \<open>now\<close> is the value of \<^verbatim>\<open>time()\<close>.\<close>

definition create_block_and_add_to_chain ::
  "real \<Rightarrow> int \<Rightarrow> string \<Rightarrow> blockchain \<Rightarrow> block \<times> blockchain" where
  "create_block_and_add_to_chain now n ph s =
     (let b = \<lparr>block_number = length (self_chain s) + 1,
                timestamp = now,
                transactions = self_transactions s,
                nonce = n,
                previous_hash = ph\<rparr>
      in (b, s\<lparr>self_transactions := [], self_chain := self_chain s @ [b]\<rparr>))"

text \<open>\<^verbatim>\<open>__init__\<close>; \<open>uuid\<close> is the random node id.\<close>

definition Blockchain_init :: "real \<Rightarrow> string \<Rightarrow> blockchain" where
  "Blockchain_init now uuid =
     snd (create_block_and_add_to_chain now 0 ''00''
       \<lparr>self_transactions = [], self_chain = [], self_nodes = [], self_node_id = uuid\<rparr>)"

text \<open>
  \<^verbatim>\<open>register_node\<close>: assignment to a key of an \<^verbatim>\<open>OrderedDict\<close> replaces the value in
  place when the key is present and appends the item otherwise.
\<close>

definition register_node :: "library \<Rightarrow> real \<Rightarrow> string \<Rightarrow> blockchain \<Rightarrow> error + blockchain" where
  "register_node L now node_url s =
     (let netloc = fst (urlparse L node_url); path = snd (urlparse L node_url) in
      if netloc \<noteq> [] then Inr (s\<lparr>self_nodes := AList.update netloc (Float now) (self_nodes s)\<rparr>)
      else if path \<noteq> [] then Inr (s\<lparr>self_nodes := AList.update path (Float now) (self_nodes s)\<rparr>)
      else Inl ValueError)"

definition verify_transaction_signature ::
  "library \<Rightarrow> string \<Rightarrow> string \<Rightarrow> transaction \<Rightarrow> error + bool" where
  "verify_transaction_signature L sender signature tx =
     (case unhexlify L sender of Inl e \<Rightarrow> Inl e | Inr kb \<Rightarrow>
     (case RSA_importKey L kb of Inl e \<Rightarrow> Inl e | Inr public_key \<Rightarrow>
     (case SHA_new (Str (str_dict L tx)) of Inl e \<Rightarrow> Inl e | Inr h0 \<Rightarrow>
     (case encode_utf8 h0 of Inl e \<Rightarrow> Inl e | Inr h \<Rightarrow>
     (case unhexlify L signature of Inl e \<Rightarrow> Inl e | Inr sg \<Rightarrow>
      Inr (PKCS1_verify L public_key h sg))))))"

text \<open>The result of \<^verbatim>\<open>add_transaction_to_current_array\<close>: a block number, or \<^verbatim>\<open>False\<close>.\<close>

datatype add_result = NextBlock nat | PyFalse

definition add_transaction_to_current_array ::
  "library \<Rightarrow> string \<Rightarrow> string \<Rightarrow> pyval \<Rightarrow> string \<Rightarrow> blockchain \<Rightarrow> error + (add_result \<times> blockchain)" where
  "add_transaction_to_current_array L sender recipient amt signature s =
     (let tx = [(''sender_address'', Str sender),
                (''recipient_address'', Str recipient),
                (''amount'', amt)]
      in if sender = MINING_SENDER
         then Inr (NextBlock (length (self_chain s) + 1),
                   s\<lparr>self_transactions := self_transactions s @ [tx]\<rparr>)
         else (case verify_transaction_signature L sender signature tx of
                 Inl e \<Rightarrow> Inl e
               | Inr verify \<Rightarrow>
                   if verify
                   then Inr (NextBlock (length (self_chain s) + 1),
                             s\<lparr>self_transactions := self_transactions s @ [tx]\<rparr>)
                   else Inr (PyFalse, s)))"

text \<open>
  \<^verbatim>\<open>hash\<close>: \<^verbatim>\<open>json.dumps\<close> serialises a dictionary, raising where the library says it
  does, and raises \<^verbatim>\<open>TypeError\<close> on a method.
\<close>

definition hash :: "library \<Rightarrow> pyobj \<Rightarrow> error + string" where
  "hash L obj =
     (case obj of
        Dict b \<Rightarrow>
          (case json_dumps_sorted L b of
             Inl e \<Rightarrow> Inl e
           | Inr block_string \<Rightarrow> Inr (sha256_hexdigest L block_string))
      | BoundMethod m \<Rightarrow> Inl TypeError)"

definition valid_proof :: "library \<Rightarrow> transaction list \<Rightarrow> string \<Rightarrow> int \<Rightarrow> nat \<Rightarrow> bool" where
  "valid_proof L txs last_hash n difficulty =
     (let guess = str_transactions L txs @ last_hash @ str_int L n;
          guess_hash = sha256_hexdigest L guess
      in take difficulty guess_hash = replicate difficulty (CHR ''0''))"

text \<open>
  \<^verbatim>\<open>proof_of_work\<close>: the \<^verbatim>\<open>while\<close> loop has no bound, so it is a partial function; the
  method itself hashes \<^verbatim>\<open>self.last_block\<close>, which is the bound method (it is neither a
  property nor called).
\<close>

partial_function (option) proof_of_work_loop ::
  "library \<Rightarrow> transaction list \<Rightarrow> string \<Rightarrow> int \<Rightarrow> int option" where
  "proof_of_work_loop L txs last_hash n =
     (if valid_proof L txs last_hash n MINING_DIFFICULTY = False
      then proof_of_work_loop L txs last_hash (n + 1)
      else Some n)"

definition proof_of_work :: "library \<Rightarrow> blockchain \<Rightarrow> (error + int) option" where
  "proof_of_work L s =
     (case hash L (BoundMethod ''last_block'') of
        Inl e \<Rightarrow> Some (Inl e)
      | Inr last_hash \<Rightarrow> map_option Inr (proof_of_work_loop L (self_transactions s) last_hash 0))"

text \<open>
  \<^verbatim>\<open>valid_chain\<close>. \<open>rebuild\<close> is the comprehension
  \<^verbatim>\<open>OrderedDict((k, transaction[k]) for k in transaction_elements)\<close>; a missing key raises
  \<^verbatim>\<open>KeyError\<close>.
\<close>

definition transaction_elements :: "string list" where
  "transaction_elements = [''sender_address'', ''recipient_address'', ''value'']"

fun rebuild :: "transaction \<Rightarrow> string list \<Rightarrow> error + transaction" where
  "rebuild tx [] = Inr []"
| "rebuild tx (k # ks) =
     (case map_of tx k of
        None \<Rightarrow> Inl (KeyError k)
      | Some v \<Rightarrow> (case rebuild tx ks of Inl e \<Rightarrow> Inl e | Inr r \<Rightarrow> Inr ((k, v) # r)))"

fun rebuild_all :: "transaction list \<Rightarrow> error + transaction list" where
  "rebuild_all [] = Inr []"
| "rebuild_all (tx # txs) =
     (case rebuild tx transaction_elements of
        Inl e \<Rightarrow> Inl e
      | Inr r \<Rightarrow> (case rebuild_all txs of Inl e \<Rightarrow> Inl e | Inr rs \<Rightarrow> Inr (r # rs)))"

text \<open>The loop body, for \<open>last_block\<close> and the blocks from \<open>current_index\<close> on.\<close>

fun valid_chain_loop :: "library \<Rightarrow> block \<Rightarrow> block list \<Rightarrow> error + bool" where
  "valid_chain_loop L last_block [] = Inr True"
| "valid_chain_loop L last_block (b # rest) =
     (case hash L (Dict last_block) of
        Inl e \<Rightarrow> Inl e
      | Inr h \<Rightarrow>
          if previous_hash b \<noteq> h then Inr False
          else (case rebuild_all (butlast (transactions b)) of
                  Inl e \<Rightarrow> Inl e
                | Inr txs \<Rightarrow>
                    if \<not> valid_proof L txs (previous_hash b) (nonce b) MINING_DIFFICULTY
                    then Inr False
                    else valid_chain_loop L b rest))"

definition valid_chain :: "library \<Rightarrow> block list \<Rightarrow> error + bool" where
  "valid_chain L c =
     (case c of [] \<Rightarrow> Inl IndexError | b0 # rest \<Rightarrow> valid_chain_loop L b0 rest)"

text \<open>
  \<^verbatim>\<open>resolve_conflicts\<close>. The network is the parameter \<open>requests_get\<close>: the outcome of
  \<^verbatim>\<open>requests.get(url)\<close>, an exception or a response. A response carries its status and
  the outcomes of reading \<^verbatim>\<open>response.json()['length']\<close> and \<^verbatim>\<open>response.json()['chain']\<close>.
\<close>

record response =
  status_code :: int
  json_length :: "error + int"
  json_chain :: "error + block list"

fun resolve_loop ::
  "library \<Rightarrow> (string \<Rightarrow> error + response) \<Rightarrow> pyval list \<Rightarrow> int \<Rightarrow> block list option
    \<Rightarrow> error + (int \<times> block list option)" where
  "resolve_loop L requests_get [] max_length new_chain = Inr (max_length, new_chain)"
| "resolve_loop L requests_get (node # rest) max_length new_chain =
     (case str_concat ''http://'' node of
        Inl e \<Rightarrow> Inl e
      | Inr u \<Rightarrow>
     (case requests_get (u @ ''/chain'') of
        Inl e \<Rightarrow> Inl e
      | Inr r \<Rightarrow>
          if status_code r = 200
          then (case json_length r of
                  Inl e \<Rightarrow> Inl e
                | Inr len \<Rightarrow>
               (case json_chain r of
                  Inl e \<Rightarrow> Inl e
                | Inr c \<Rightarrow>
                    if len > max_length
                    then (case valid_chain L c of
                            Inl e \<Rightarrow> Inl e
                          | Inr ok \<Rightarrow>
                              if ok then resolve_loop L requests_get rest len (Some c)
                              else resolve_loop L requests_get rest max_length new_chain)
                    else resolve_loop L requests_get rest max_length new_chain))
          else resolve_loop L requests_get rest max_length new_chain))"

definition resolve_conflicts ::
  "library \<Rightarrow> (string \<Rightarrow> error + response) \<Rightarrow> blockchain \<Rightarrow> error + (bool \<times> blockchain)" where
  "resolve_conflicts L requests_get s =
     (let neighbours = map snd (self_nodes s);
          max_length = int (length (self_chain s))
      in case resolve_loop L requests_get neighbours max_length None of
           Inl e \<Rightarrow> Inl e
         | Inr res \<Rightarrow>
             (case snd res of
                None \<Rightarrow> Inr (False, s)
              | Some c \<Rightarrow> if c \<noteq> [] then Inr (True, s\<lparr>self_chain := c\<rparr>) else Inr (False, s)))"

definition last_block :: "blockchain \<Rightarrow> error + block" where
  "last_block s = (case self_chain s of [] \<Rightarrow> Inl IndexError | b # bs \<Rightarrow> Inr (last (self_chain s)))"

text \<open>
  The states a \<^verbatim>\<open>Blockchain\<close> object can be in: built by \<^verbatim>\<open>__init__\<close> and changed by
  its methods. A method that raises has not changed the object (every assignment to an
  attribute comes after the last statement that can raise).
\<close>

inductive reachable :: "blockchain \<Rightarrow> bool" where
  construct: "reachable (Blockchain_init now uuid)"
| register: "reachable s \<Longrightarrow> register_node L now url s = Inr s' \<Longrightarrow> reachable s'"
| submit: "reachable s \<Longrightarrow>
     add_transaction_to_current_array L sender recipient amt signature s = Inr (r, s') \<Longrightarrow>
     reachable s'"
| seal: "reachable s \<Longrightarrow> create_block_and_add_to_chain now n ph s = (b, s') \<Longrightarrow> reachable s'"
| resolve: "reachable s \<Longrightarrow> resolve_conflicts L requests_get s = Inr (ok, s') \<Longrightarrow> reachable s'"

section \<open>A small instance of the library, for evaluating the model\<close>

text \<open>
  The theorems below hold for every \<open>library\<close>. Where a statement is evaluated at a
  concrete input, the library functions are these stand-ins: the digest starts with
  \<open>00\<close> exactly when the hashed text ends in the character \<open>1\<close>, so that with the
  text of an integer the nonce \<open>1\<close> qualifies at difficulty 2 and the nonce \<open>0\<close> does
  not; the key and signature functions accept every key.
\<close>

definition toy_library :: library where
  "toy_library =
     \<lparr>sha256_hexdigest = (\<lambda>s. if s \<noteq> [] \<and> last s = CHR ''1'' then ''00c3'' else ''a7c3''),
      json_dumps_sorted = (\<lambda>b. Inr (previous_hash b @ replicate (block_number b) (CHR ''x''))),
      str_transactions = (\<lambda>txs. concat (map (\<lambda>tx. concat (map fst tx)) txs)),
      str_dict = (\<lambda>tx. concat (map fst tx)),
      str_int = (\<lambda>n. if n = 1 then ''1'' else ''0''),
      unhexlify = Inr,
      hexlify = (\<lambda>s. s),
      RSA_importKey = Inr,
      PKCS1_sign = (\<lambda>k h. Inr k),
      PKCS1_verify = (\<lambda>k h sg. sg = k),
      urlparse = (\<lambda>u. ([], u))\<rparr>"

text \<open>
  A chain as a peer would serve it: the genesis block and one block sealed over an empty
  buffer with the mint transaction added, nonce 1. With the stand-in digest its previous
  hash is the hash of the genesis block and its nonce qualifies.
\<close>

definition example_peer_chain :: "block list" where
  "example_peer_chain =
     [\<lparr>block_number = 1, timestamp = 0, transactions = [], nonce = 0, previous_hash = ''00''\<rparr>,
      \<lparr>block_number = 2, timestamp = 3,
       transactions = [[(''sender_address'', Str ''VOIDCOIN''),
                        (''recipient_address'', Str ''miner''),
                        (''amount'', Float (1/4))]],
       nonce = 1, previous_hash = ''a7c3''\<rparr>]"





section \<open>Sealing a block\<close>

text \<open>
  C8. \<^verbatim>\<open>create_block_and_add_to_chain\<close>, called with a nonce and a previous hash, returns
  the block numbered \<open>len(chain) + 1\<close> that holds the pending transactions, the nonce and
  the previous hash it was given; the chain afterwards is the old chain with exactly this
  block appended, so it is one longer; the pending buffer is empty; the registry and the
  node id are untouched.
\<close>

theorem create_block_appends_snapshot:
  "fst (create_block_and_add_to_chain now n ph s) =
      \<lparr>block_number = length (self_chain s) + 1, timestamp = now,
       transactions = self_transactions s, nonce = n, previous_hash = ph\<rparr>
   \<and> self_chain (snd (create_block_and_add_to_chain now n ph s)) =
      self_chain s @ [fst (create_block_and_add_to_chain now n ph s)]
   \<and> length (self_chain (snd (create_block_and_add_to_chain now n ph s))) =
      length (self_chain s) + 1
   \<and> self_transactions (snd (create_block_and_add_to_chain now n ph s)) = []
   \<and> self_nodes (snd (create_block_and_add_to_chain now n ph s)) = self_nodes s
   \<and> self_node_id (snd (create_block_and_add_to_chain now n ph s)) = self_node_id s"
  by (simp add: create_block_and_add_to_chain_def Let_def)

section \<open>The chain is never empty\<close>

lemma Blockchain_init_chain:
  "self_chain (Blockchain_init now uuid) =
     [\<lparr>block_number = 1, timestamp = now, transactions = [], nonce = 0,
       previous_hash = ''00''\<rparr>]"
  by (simp add: Blockchain_init_def create_block_and_add_to_chain_def Let_def)

lemma Blockchain_init_state:
  "Blockchain_init now uuid =
     \<lparr>self_transactions = [],
      self_chain = [\<lparr>block_number = 1, timestamp = now, transactions = [], nonce = 0,
                     previous_hash = ''00''\<rparr>],
      self_nodes = [], self_node_id = uuid\<rparr>"
  by (simp add: Blockchain_init_def create_block_and_add_to_chain_def Let_def)

lemma register_node_chain:
  "register_node L now url s = Inr s' \<Longrightarrow> self_chain s' = self_chain s"
  by (auto simp: register_node_def Let_def split: if_splits)

lemma add_transaction_chain:
  "add_transaction_to_current_array L sender recipient amt signature s = Inr (r, s') \<Longrightarrow>
   self_chain s' = self_chain s"
  by (auto simp: add_transaction_to_current_array_def Let_def split: if_splits sum.splits)

lemma resolve_conflicts_chain_nonempty:
  "resolve_conflicts L requests_get s = Inr (ok, s') \<Longrightarrow> self_chain s \<noteq> [] \<Longrightarrow>
   self_chain s' \<noteq> []"
  by (auto simp: resolve_conflicts_def Let_def split: sum.splits option.splits if_splits)

lemma reachable_chain_nonempty: "reachable s \<Longrightarrow> self_chain s \<noteq> []"
proof (induction rule: reachable.induct)
  case (construct now uuid)
  show ?case by (simp add: Blockchain_init_chain)
next
  case (register s L now url s')
  then show ?case by (simp add: register_node_chain)
next
  case (submit s L sender recipient amt signature r s')
  then show ?case by (simp add: add_transaction_chain)
next
  case (seal s now n ph b s')
  then show ?case by (auto simp: create_block_and_add_to_chain_def Let_def)
next
  case (resolve s L requests_get ok s')
  from resolve.hyps(2) resolve.IH show ?case by (rule resolve_conflicts_chain_nonempty)
qed

text \<open>
  C9. After construction the chain is exactly the genesis block: number 1, nonce 0, the
  sentinel previous hash \<open>00\<close>, no transactions. Every state reached through the methods
  of the class has a non-empty chain, and there \<^verbatim>\<open>last_block()\<close> returns the last block
  of the chain without raising.
\<close>

theorem genesis_and_last_block:
  "self_chain (Blockchain_init now uuid) =
     [\<lparr>block_number = 1, timestamp = now, transactions = [], nonce = 0,
       previous_hash = ''00''\<rparr>]
   \<and> (reachable s \<longrightarrow> self_chain s \<noteq> [] \<and> last_block s = Inr (last (self_chain s)))"
  using reachable_chain_nonempty [of s]
  by (auto simp: Blockchain_init_chain last_block_def split: list.splits)

theorem genesis_and_last_block_witness:
  "reachable (snd (create_block_and_add_to_chain 2 5 ''ab'' (Blockchain_init 1 ''n0'')))
   \<and> last_block (snd (create_block_and_add_to_chain 2 5 ''ab'' (Blockchain_init 1 ''n0''))) =
       Inr \<lparr>block_number = 2, timestamp = 2, transactions = [], nonce = 5,
            previous_hash = ''ab''\<rparr>"
proof -
  let ?s = "snd (create_block_and_add_to_chain 2 5 ''ab'' (Blockchain_init 1 ''n0''))"
  have r: "reachable ?s"
    by (rule reachable.seal [OF reachable.construct [of 1 "''n0''"], of 2 5 "''ab''"
          "fst (create_block_and_add_to_chain 2 5 ''ab'' (Blockchain_init 1 ''n0''))"]) simp
  have "last_block ?s = Inr (last (self_chain ?s))"
    using genesis_and_last_block [of 1 "''n0''" ?s] r by blast
  moreover have "last (self_chain ?s) =
       \<lparr>block_number = 2, timestamp = 2, transactions = [], nonce = 5, previous_hash = ''ab''\<rparr>"
    by (simp add: Blockchain_init_state create_block_and_add_to_chain_def Let_def)
  ultimately show ?thesis using r by simp
qed

section \<open>Single-block chains\<close>

text \<open>
  C10. For a chain of exactly one block \<^verbatim>\<open>valid_chain\<close> returns \<^verbatim>\<open>True\<close>, whatever the
  block holds and whatever the hash functions are: the loop starts at index 1 and never
  runs, so no field of the block is read.
\<close>

theorem valid_chain_single_block: "valid_chain L [b] = Inr True"
  by (simp add: valid_chain_def)

section \<open>Signatures\<close>

text \<open>
  \<^verbatim>\<open>sign_transaction\<close> encodes the text of the transaction before hashing it, and
  returns a signature whenever the key can be imported and signs.
\<close>

lemma sign_transaction_returns:
  "unhexlify L (sender_private_key t) = Inr kb \<Longrightarrow> RSA_importKey L kb = Inr k \<Longrightarrow>
   PKCS1_sign L k (SHA1Hash (str_dict L (to_dict t))) = Inr sg \<Longrightarrow>
   sign_transaction L t = Inr (hexlify L sg)"
  by (simp add: sign_transaction_def encode_utf8_def SHA_new_def)

text \<open>
  C3. The claim: \<^verbatim>\<open>verify_transaction_signature\<close> returns true exactly for a signature
  made by the matching private key over the transaction's encoding, and returns false,
  without raising, for a bad signature. The code hands the unencoded \<^verbatim>\<open>str\<close> to
  \<^verbatim>\<open>SHA.new\<close> and calls \<^verbatim>\<open>.encode\<close> on the hash object, so for every key, signature and
  transaction the call raises: the error of the key import when the key is malformed,
  \<^verbatim>\<open>TypeError\<close> otherwise (under Python 2, where \<^verbatim>\<open>SHA.new\<close> takes a \<^verbatim>\<open>str\<close>, the
  \<^verbatim>\<open>.encode\<close> on the hash object raises \<^verbatim>\<open>AttributeError\<close> instead). It returns neither
  true nor false.
\<close>

theorem verify_transaction_signature_raises:
  "verify_transaction_signature L sender signature tx =
     (case unhexlify L sender of
        Inl e \<Rightarrow> Inl e
      | Inr kb \<Rightarrow> (case RSA_importKey L kb of Inl e \<Rightarrow> Inl e | Inr k \<Rightarrow> Inl TypeError))"
  by (simp add: verify_transaction_signature_def SHA_new_def split: sum.splits)

lemma verify_transaction_signature_never_returns:
  "verify_transaction_signature L sender signature tx \<noteq> Inr v"
  by (simp add: verify_transaction_signature_def SHA_new_def split: sum.splits)

text \<open>
  C4. The claim: a transaction of the mint identity is appended and \<open>len(chain) + 1\<close>
  returned; any other transaction is appended when its signature verifies and rejected
  with a value, without an exception and with the buffer unchanged, when it does not. In
  the code the mint branch is as claimed; every other sender reaches
  \<^verbatim>\<open>verify_transaction_signature\<close>, which raises, so the call raises and returns neither
  the block number nor \<^verbatim>\<open>False\<close>.
\<close>

theorem add_transaction_mint_or_raises:
  "add_transaction_to_current_array L sender recipient amt signature s =
     (if sender = MINING_SENDER
      then Inr (NextBlock (length (self_chain s) + 1),
                s\<lparr>self_transactions := self_transactions s @
                   [[(''sender_address'', Str sender), (''recipient_address'', Str recipient),
                     (''amount'', amt)]]\<rparr>)
      else (case unhexlify L sender of
              Inl e \<Rightarrow> Inl e
            | Inr kb \<Rightarrow> (case RSA_importKey L kb of Inl e \<Rightarrow> Inl e | Inr k \<Rightarrow> Inl TypeError)))"
  by (simp add: add_transaction_to_current_array_def verify_transaction_signature_def
        SHA_new_def split: sum.splits)

section \<open>Proof of work\<close>

text \<open>
  The search loop of \<^verbatim>\<open>proof_of_work\<close>, started at a nonce \<open>n\<close>, returns the first
  qualifying nonce from \<open>n\<close> on.
\<close>

lemma proof_of_work_loop_first:
  "valid_proof L txs h (n + int k) MINING_DIFFICULTY \<Longrightarrow>
   \<forall>j<k. \<not> valid_proof L txs h (n + int j) MINING_DIFFICULTY \<Longrightarrow>
   proof_of_work_loop L txs h n = Some (n + int k)"
proof (induction k arbitrary: n)
  case 0
  then show ?case by (subst proof_of_work_loop.simps) simp
next
  case (Suc k)
  have first: "\<not> valid_proof L txs h n MINING_DIFFICULTY"
    using Suc.prems(2) [rule_format, of 0] by simp
  have shift: "n + 1 + int j = n + int (Suc j)" for j by simp
  have hit: "valid_proof L txs h (n + 1 + int k) MINING_DIFFICULTY"
    using Suc.prems(1) by (simp only: shift)
  have miss: "\<forall>j<k. \<not> valid_proof L txs h (n + 1 + int j) MINING_DIFFICULTY"
  proof (intro allI impI)
    fix j assume "j < k"
    then have "Suc j < Suc k" by simp
    from Suc.prems(2) [rule_format, OF this]
    show "\<not> valid_proof L txs h (n + 1 + int j) MINING_DIFFICULTY"
      by (metis shift)
  qed
  have "proof_of_work_loop L txs h (n + 1) = Some (n + 1 + int k)"
    by (rule Suc.IH [OF hit miss])
  then show ?case
    using first by (subst proof_of_work_loop.simps) (simp only: shift, simp)
qed

text \<open>
  So the loop alone does what is asked of the search: when some nonce \<open>n \<ge> 0\<close>
  qualifies, it terminates with the least qualifying nonce, which \<^verbatim>\<open>valid_proof\<close> accepts.
\<close>

lemma proof_of_work_loop_least:
  assumes "0 \<le> n" and "valid_proof L txs h n MINING_DIFFICULTY"
  shows "\<exists>m. proof_of_work_loop L txs h 0 = Some m \<and> 0 \<le> m \<and> m \<le> n
            \<and> valid_proof L txs h m MINING_DIFFICULTY
            \<and> (\<forall>j. 0 \<le> j \<and> j < m \<longrightarrow> \<not> valid_proof L txs h j MINING_DIFFICULTY)"
proof -
  define P where "P k = valid_proof L txs h (int k) MINING_DIFFICULTY" for k
  define k0 where "k0 = (LEAST k. P k)"
  have "P (nat n)" using assms by (simp add: P_def)
  then have k0: "P k0" and le: "k0 \<le> nat n"
    by (auto simp: k0_def intro: LeastI Least_le)
  have below: "\<not> P j" if "j < k0" for j
    using that not_less_Least unfolding k0_def by blast
  have run: "proof_of_work_loop L txs h 0 = Some (0 + int k0)"
    using k0 below by (intro proof_of_work_loop_first) (auto simp: P_def)
  have "\<not> valid_proof L txs h j MINING_DIFFICULTY" if "0 \<le> j" "j < int k0" for j
  proof -
    have "nat j < k0" using that by linarith
    then have "\<not> P (nat j)" by (rule below)
    then show ?thesis using that by (simp add: P_def)
  qed
  then show ?thesis using run k0 le assms(1) by (auto simp: P_def)
qed

text \<open>
  C2. The claim: \<^verbatim>\<open>proof_of_work\<close> terminates when a qualifying nonce exists and returns
  the least one. The method never reaches its loop: it hashes \<^verbatim>\<open>self.last_block\<close>, which
  is the bound method and not the last block (\<^verbatim>\<open>last_block\<close> is a plain method and is not
  called), and \<^verbatim>\<open>json.dumps\<close> raises \<^verbatim>\<open>TypeError\<close> on it. This holds in every state and
  for every hash function.
\<close>

theorem proof_of_work_raises: "proof_of_work L s = Some (Inl TypeError)"
  by (simp add: proof_of_work_def hash_def)

section \<open>Validating a chain\<close>

text \<open>
  Whenever \<^verbatim>\<open>valid_chain\<close> returns \<^verbatim>\<open>True\<close>, every block after the first carries the
  hash of its predecessor, and its nonce meets the difficulty over the rebuilt
  transactions. So a chain with a corrupted previous hash or an invalidated nonce is
  never accepted: the call returns \<^verbatim>\<open>False\<close> or raises.
\<close>

lemma valid_chain_loop_True:
  "valid_chain_loop L b0 rest = Inr True \<Longrightarrow> i < length rest \<Longrightarrow>
   hash L (Dict ((b0 # rest) ! i)) = Inr (previous_hash (rest ! i))
   \<and> (\<exists>txs. rebuild_all (butlast (transactions (rest ! i))) = Inr txs
          \<and> valid_proof L txs (previous_hash (rest ! i)) (nonce (rest ! i)) MINING_DIFFICULTY)"
proof (induction rest arbitrary: b0 i)
  case Nil
  then show ?case by simp
next
  case (Cons b rest)
  from Cons.prems(1) obtain txs where
    link: "hash L (Dict b0) = Inr (previous_hash b)" and
    txs: "rebuild_all (butlast (transactions b)) = Inr txs" and
    pow: "valid_proof L txs (previous_hash b) (nonce b) MINING_DIFFICULTY" and
    tail: "valid_chain_loop L b rest = Inr True"
    by (auto split: if_splits sum.splits)
  show ?case
  proof (cases i)
    case 0
    then show ?thesis using link txs pow by simp
  next
    case (Suc j)
    then have "j < length rest" using Cons.prems(2) by simp
    from Cons.IH [OF tail this] have
      "hash L (Dict ((b # rest) ! j)) = Inr (previous_hash (rest ! j))"
      and "\<exists>txs. rebuild_all (butlast (transactions (rest ! j))) = Inr txs
          \<and> valid_proof L txs (previous_hash (rest ! j)) (nonce (rest ! j)) MINING_DIFFICULTY"
      by blast+
    then show ?thesis unfolding Suc by (simp del: ex_simps)
  qed
qed

lemma valid_chain_True:
  assumes "valid_chain L c = Inr True" and "Suc i < length c"
  shows "hash L (Dict (c ! i)) = Inr (previous_hash (c ! Suc i))
         \<and> (\<exists>txs. rebuild_all (butlast (transactions (c ! Suc i))) = Inr txs
                \<and> valid_proof L txs (previous_hash (c ! Suc i)) (nonce (c ! Suc i))
                     MINING_DIFFICULTY)"
proof (cases c)
  case Nil
  then show ?thesis using assms by simp
next
  case (Cons b0 rest)
  then have "valid_chain_loop L b0 rest = Inr True" and "i < length rest"
    using assms by (simp_all add: valid_chain_def)
  note fact = valid_chain_loop_True [OF this]
  show ?thesis unfolding Cons nth_Cons_Suc by (rule fact)
qed

text \<open>
  A transaction as \<^verbatim>\<open>add_transaction_to_current_array\<close> builds it has the keys
  \<open>sender_address\<close>, \<open>recipient_address\<close> and \<open>amount\<close>; rebuilding it with the keys of
  \<^verbatim>\<open>valid_chain\<close> raises \<^verbatim>\<open>KeyError\<close> on \<open>value\<close>.
\<close>

lemma rebuild_ledger_transaction:
  "rebuild [(''sender_address'', a), (''recipient_address'', b), (''amount'', c)]
     transaction_elements = Inl (KeyError ''value'')"
  by (simp add: transaction_elements_def)

text \<open>
  C1. The claim: \<^verbatim>\<open>valid_chain\<close> returns true for every untampered chain sealed by the
  ledger, and false for a chain with a corrupted previous hash or an invalidated nonce.
  In the code, take a new ledger, submit two transactions of the mint identity and seal
  them into a block whose previous hash is the hash of the genesis block, with any nonce:
  \<^verbatim>\<open>valid_chain\<close> on the resulting chain raises \<^verbatim>\<open>KeyError\<close>, because it reads the key
  \<open>value\<close> of every transaction but the last one, and the ledger's transactions have the
  key \<open>amount\<close>. It returns neither true (for a good nonce) nor false (for a bad one).
\<close>

theorem valid_chain_raises_on_sealed_chain:
  assumes "add_transaction_to_current_array L MINING_SENDER r1 a1 sg1 (Blockchain_init t0 uuid)
             = Inr (k1, s1)"
      and "add_transaction_to_current_array L MINING_SENDER r2 a2 sg2 s1 = Inr (k2, s2)"
      and "last_block s2 = Inr g"
      and "hash L (Dict g) = Inr h"
      and "create_block_and_add_to_chain t1 n h s2 = (b, s3)"
  shows "valid_chain L (self_chain s3) = Inl (KeyError ''value'')"
proof -
  let ?g = "\<lparr>block_number = 1, timestamp = t0, transactions = [], nonce = 0,
             previous_hash = ''00''\<rparr>"
  let ?tx1 = "[(''sender_address'', Str MINING_SENDER), (''recipient_address'', Str r1),
               (''amount'', a1)]"
  let ?tx2 = "[(''sender_address'', Str MINING_SENDER), (''recipient_address'', Str r2),
               (''amount'', a2)]"
  have s1: "s1 = (Blockchain_init t0 uuid)\<lparr>self_transactions := [?tx1]\<rparr>"
    using assms(1) by (simp add: add_transaction_to_current_array_def Blockchain_init_state)
  have s2: "s2 = (Blockchain_init t0 uuid)\<lparr>self_transactions := [?tx1, ?tx2]\<rparr>"
    using assms(2) by (simp add: add_transaction_to_current_array_def s1)
  have g: "g = ?g"
    using assms(3) by (simp add: last_block_def s2 Blockchain_init_state)
  have h: "hash L (Dict ?g) = Inr h"
    using assms(4) by (simp add: g)
  have chain: "self_chain s3 =
      [?g, \<lparr>block_number = 2, timestamp = t1, transactions = [?tx1, ?tx2], nonce = n,
             previous_hash = h\<rparr>]"
    using assms(5) by (auto simp: create_block_and_add_to_chain_def Let_def s2 Blockchain_init_state)
  show ?thesis
    using h by (simp add: chain valid_chain_def rebuild_ledger_transaction)
qed

theorem valid_chain_raises_on_sealed_chain_witness:
  "\<exists>s1 s2 s3 b.
     add_transaction_to_current_array toy_library MINING_SENDER ''alice'' (Float 1) []
       (Blockchain_init 0 ''n0'') = Inr (NextBlock 2, s1)
   \<and> add_transaction_to_current_array toy_library MINING_SENDER ''miner'' (Float (1/4)) [] s1
       = Inr (NextBlock 2, s2)
   \<and> last_block s2 = Inr \<lparr>block_number = 1, timestamp = 0, transactions = [], nonce = 0,
                           previous_hash = ''00''\<rparr>
   \<and> hash toy_library (Dict \<lparr>block_number = 1, timestamp = 0, transactions = [], nonce = 0,
                               previous_hash = ''00''\<rparr>) = Inr ''a7c3''
   \<and> create_block_and_add_to_chain 3 1 ''a7c3'' s2 = (b, s3)
   \<and> length (self_chain s3) = 2
   \<and> valid_chain toy_library (self_chain s3) = Inl (KeyError ''value'')"
proof -
  let ?g = "\<lparr>block_number = 1, timestamp = 0, transactions = [], nonce = 0,
             previous_hash = ''00''\<rparr>"
  let ?s0 = "Blockchain_init 0 ''n0''"
  let ?tx1 = "[(''sender_address'', Str MINING_SENDER), (''recipient_address'', Str ''alice''),
               (''amount'', Float 1)]"
  let ?tx2 = "[(''sender_address'', Str MINING_SENDER), (''recipient_address'', Str ''miner''),
               (''amount'', Float (1/4))]"
  let ?s1 = "?s0\<lparr>self_transactions := [?tx1]\<rparr>"
  let ?s2 = "?s0\<lparr>self_transactions := [?tx1, ?tx2]\<rparr>"
  let ?b = "fst (create_block_and_add_to_chain 3 1 ''a7c3'' ?s2)"
  let ?s3 = "snd (create_block_and_add_to_chain 3 1 ''a7c3'' ?s2)"
  have a1: "add_transaction_to_current_array toy_library MINING_SENDER ''alice'' (Float 1) [] ?s0
              = Inr (NextBlock 2, ?s1)"
    by (simp add: add_transaction_to_current_array_def Blockchain_init_state)
  have a2: "add_transaction_to_current_array toy_library MINING_SENDER ''miner'' (Float (1/4)) [] ?s1
              = Inr (NextBlock 2, ?s2)"
    by (simp add: add_transaction_to_current_array_def Blockchain_init_state)
  have lb: "last_block ?s2 = Inr ?g"
    by (simp add: last_block_def Blockchain_init_state)
  have hg: "hash toy_library (Dict ?g) = Inr ''a7c3''"
    by (simp add: hash_def toy_library_def)
  have cr: "create_block_and_add_to_chain 3 1 ''a7c3'' ?s2 = (?b, ?s3)"
    by simp
  have len: "length (self_chain ?s3) = 2"
    by (simp add: create_block_and_add_to_chain_def Let_def Blockchain_init_state)
  have "valid_chain toy_library (self_chain ?s3) = Inl (KeyError ''value'')"
    by (rule valid_chain_raises_on_sealed_chain [OF a1 a2 lb hg cr])
  with a1 a2 lb hg cr len show ?thesis by blast
qed

section \<open>Resolving conflicts\<close>

text \<open>\<^verbatim>\<open>resolve_conflicts\<close> changes nothing but the chain.\<close>

lemma resolve_conflicts_frame:
  "resolve_conflicts L requests_get s = Inr (ok, s') \<Longrightarrow>
   self_nodes s' = self_nodes s \<and> self_transactions s' = self_transactions s
   \<and> self_node_id s' = self_node_id s \<and> (\<not> ok \<longrightarrow> s' = s)"
  by (auto simp: resolve_conflicts_def Let_def split: sum.splits option.splits if_splits)

text \<open>The values of the registry are the instants at which the nodes were registered.\<close>

lemma update_values:
  "(k', v') \<in> set (AList.update k v al) \<Longrightarrow> v' = v \<or> (k', v') \<in> set al"
  by (induction al) (auto split: if_splits)

lemma reachable_nodes_Float:
  "reachable s \<Longrightarrow> (k, v) \<in> set (self_nodes s) \<Longrightarrow> \<exists>t. v = Float t"
proof (induction arbitrary: k v rule: reachable.induct)
  case (construct now uuid)
  then show ?case by (simp add: Blockchain_init_state)
next
  case (register s L now url s')
  from register.hyps(2) register.prems
  have "v = Float now \<or> (k, v) \<in> set (self_nodes s)"
    by (auto simp: register_node_def Let_def split: if_splits dest: update_values)
  then show ?case using register.IH by blast
next
  case (submit s L sender recipient amt signature r s')
  from submit.hyps(2) have "self_nodes s' = self_nodes s"
    by (auto simp: add_transaction_to_current_array_def Let_def split: if_splits sum.splits)
  then show ?case using submit.IH submit.prems by simp
next
  case (seal s now n ph b s')
  from seal.hyps(2) have "self_nodes s' = self_nodes s"
    by (auto simp: create_block_and_add_to_chain_def Let_def)
  then show ?case using seal.IH seal.prems by simp
next
  case (resolve s L requests_get ok s')
  from resolve.hyps(2) have "self_nodes s' = self_nodes s"
    by (simp add: resolve_conflicts_frame)
  then show ?case using resolve.IH resolve.prems by simp
qed

lemma resolve_loop_Float:
  "resolve_loop L requests_get (Float t # rest) m nc = Inl TypeError"
  by (simp add: str_concat_def)

text \<open>
  C7. The claim: \<^verbatim>\<open>resolve_conflicts\<close> fetches the chain of every registered peer at the
  peer's address, the key that \<^verbatim>\<open>register_node\<close> recorded, and never changes the
  registry. The code iterates over the values of the registry, which are the instants of
  registration, and \<^verbatim>\<open>'http://' + node\<close> raises \<^verbatim>\<open>TypeError\<close> on the first of them: in
  every state reached through the methods of the class in which a peer is registered, the
  call raises before any fetch, whatever the network would answer.
\<close>

theorem resolve_conflicts_raises_when_registered:
  assumes "reachable s" and "self_nodes s \<noteq> []"
  shows "resolve_conflicts L requests_get s = Inl TypeError"
proof -
  from assms(2) obtain k v rest where nodes: "self_nodes s = (k, v) # rest"
    by (cases "self_nodes s") auto
  then obtain t where "v = Float t"
    using reachable_nodes_Float [OF assms(1), of k v] by auto
  then show ?thesis
    by (simp add: resolve_conflicts_def nodes str_concat_def)
qed

theorem resolve_conflicts_raises_when_registered_witness:
  "register_node toy_library 7 ''127.0.0.1:5001'' (Blockchain_init 0 ''n0'') =
     Inr ((Blockchain_init 0 ''n0'')\<lparr>self_nodes := [(''127.0.0.1:5001'', Float 7)]\<rparr>)
   \<and> resolve_conflicts toy_library (\<lambda>url. Inl ConnectionError)
       ((Blockchain_init 0 ''n0'')\<lparr>self_nodes := [(''127.0.0.1:5001'', Float 7)]\<rparr>)
     = Inl TypeError"
proof -
  let ?s = "(Blockchain_init 0 ''n0'')\<lparr>self_nodes := [(''127.0.0.1:5001'', Float 7)]\<rparr>"
  have reg: "register_node toy_library 7 ''127.0.0.1:5001'' (Blockchain_init 0 ''n0'') = Inr ?s"
    by (simp add: register_node_def toy_library_def Blockchain_init_state)
  have "reachable ?s"
    by (rule reachable.register [OF reachable.construct reg])
  moreover have "self_nodes ?s \<noteq> []" by simp
  ultimately have "resolve_conflicts toy_library (\<lambda>url. Inl ConnectionError) ?s = Inl TypeError"
    by (rule resolve_conflicts_raises_when_registered)
  with reg show ?thesis by simp
qed

lemma example_peer_chain_valid: "valid_chain toy_library example_peer_chain = Inr True"
  by (simp add: example_peer_chain_def valid_chain_def hash_def valid_proof_def
        toy_library_def MINING_DIFFICULTY_def numeral_2_eq_2)

text \<open>
  C5. The claim: \<^verbatim>\<open>resolve_conflicts\<close> adopts the longest valid peer chain that is longer
  than the local one and returns true. In the code, a ledger holding only the genesis
  block, with one peer registered through \<^verbatim>\<open>register_node\<close> that serves a valid chain of
  length 2, is not replaced: the call raises \<^verbatim>\<open>TypeError\<close> while building the peer's URL
  from the registration instant and adopts nothing.
\<close>

theorem resolve_conflicts_longer_valid_peer_raises:
  "register_node toy_library 7 ''127.0.0.1:5001'' (Blockchain_init 0 ''n0'') =
     Inr ((Blockchain_init 0 ''n0'')\<lparr>self_nodes := [(''127.0.0.1:5001'', Float 7)]\<rparr>)
   \<and> valid_chain toy_library example_peer_chain = Inr True
   \<and> length (self_chain (Blockchain_init 0 ''n0'')) < length example_peer_chain
   \<and> resolve_conflicts toy_library
       (\<lambda>url. Inr \<lparr>status_code = 200, json_length = Inr 2, json_chain = Inr example_peer_chain\<rparr>)
       ((Blockchain_init 0 ''n0'')\<lparr>self_nodes := [(''127.0.0.1:5001'', Float 7)]\<rparr>)
     = Inl TypeError"
  by (simp add: example_peer_chain_valid register_node_def resolve_conflicts_def
        Blockchain_init_state str_concat_def)
     (simp add: toy_library_def example_peer_chain_def)

text \<open>
  The only guard of the pass is the test of the status: where a URL can be built (a
  registry value that is a \<^verbatim>\<open>str\<close>, which \<^verbatim>\<open>register_node\<close> never stores), a status
  other than 200 skips the peer, and an exception of the fetch or of reading the body
  is not handled.
\<close>

lemma resolve_loop_non_200:
  "requests_get (''http://'' @ a @ ''/chain'') = Inr r \<Longrightarrow> status_code r \<noteq> 200 \<Longrightarrow>
   resolve_loop L requests_get (Str a # rest) m nc = resolve_loop L requests_get rest m nc"
  by (simp add: str_concat_def)

lemma resolve_loop_fetch_raises:
  "requests_get (''http://'' @ a @ ''/chain'') = Inl e \<Longrightarrow>
   resolve_loop L requests_get (Str a # rest) m nc = Inl e"
  by (simp add: str_concat_def)

lemma resolve_loop_malformed:
  "requests_get (''http://'' @ a @ ''/chain'') = Inr r \<Longrightarrow> status_code r = 200 \<Longrightarrow>
   json_length r = Inl e \<or> (json_length r = Inr len \<and> json_chain r = Inl e) \<Longrightarrow>
   resolve_loop L requests_get (Str a # rest) m nc = Inl e"
  by (auto simp: str_concat_def)


section \<open>The pass and the validator where they return\<close>

text \<open>
  Where the pass runs to its end, it does what is asked of the resolution: the chain it
  hands back is one that a peer served with status 200 and a length above the local one,
  that \<^verbatim>\<open>valid_chain\<close> accepted, and no served chain that \<^verbatim>\<open>valid_chain\<close> accepts has a
  greater length.
\<close>

lemma resolve_loop_chosen:
  "resolve_loop L requests_get nodes m nc = Inr (m', nc') \<Longrightarrow>
   (m' = m \<and> nc' = nc)
   \<or> (m < m' \<and> (\<exists>a r c. Str a \<in> set nodes
          \<and> requests_get (''http://'' @ a @ ''/chain'') = Inr r \<and> status_code r = 200
          \<and> json_length r = Inr m' \<and> json_chain r = Inr c
          \<and> valid_chain L c = Inr True \<and> nc' = Some c))"
proof (induction nodes arbitrary: m nc)
  case Nil
  then show ?case by simp
next
  case (Cons node rest)
  from Cons.prems obtain a where node: "node = Str a"
    by (cases node) (simp_all add: str_concat_def)
  from Cons.prems node obtain r where r: "requests_get (''http://'' @ a @ ''/chain'') = Inr r"
    by (cases "requests_get (''http://'' @ a @ ''/chain'')") (simp_all add: str_concat_def)
  show ?case
  proof (cases "status_code r = 200")
    case False
    then have "resolve_loop L requests_get rest m nc = Inr (m', nc')"
      using Cons.prems node r by (simp add: str_concat_def)
    from Cons.IH [OF this] show ?thesis by auto
  next
    case True
    from Cons.prems node r True obtain len c where
      len: "json_length r = Inr len" and c: "json_chain r = Inr c"
      by (auto simp: str_concat_def split: sum.splits)
    show ?thesis
    proof (cases "m < len \<and> valid_chain L c = Inr True")
      case False
      then have "resolve_loop L requests_get rest m nc = Inr (m', nc')"
        using Cons.prems node r True len c
        by (auto simp: str_concat_def split: sum.splits if_splits)
      from Cons.IH [OF this] show ?thesis by auto
    next
      case adopt: True
      then have "resolve_loop L requests_get rest len (Some c) = Inr (m', nc')"
        using Cons.prems node r True len c by (simp add: str_concat_def)
      from Cons.IH [OF this] have
        "(m' = len \<and> nc' = Some c)
         \<or> (len < m' \<and> (\<exists>a r c. Str a \<in> set rest
               \<and> requests_get (''http://'' @ a @ ''/chain'') = Inr r \<and> status_code r = 200
               \<and> json_length r = Inr m' \<and> json_chain r = Inr c
               \<and> valid_chain L c = Inr True \<and> nc' = Some c))" .
      then show ?thesis
      proof
        assume "m' = len \<and> nc' = Some c"
        then have "m < m'" and "Str a \<in> set (node # rest)"
          and "json_length r = Inr m'" and "nc' = Some c"
          using adopt node len by simp_all
        then show ?thesis using r True c adopt by blast
      next
        assume "len < m' \<and> (\<exists>a r c. Str a \<in> set rest
               \<and> requests_get (''http://'' @ a @ ''/chain'') = Inr r \<and> status_code r = 200
               \<and> json_length r = Inr m' \<and> json_chain r = Inr c
               \<and> valid_chain L c = Inr True \<and> nc' = Some c)"
        then show ?thesis using adopt by auto
      qed
    qed
  qed
qed

lemma resolve_loop_mono:
  "resolve_loop L requests_get nodes m nc = Inr (m', nc') \<Longrightarrow> m \<le> m'"
  using resolve_loop_chosen [of L requests_get nodes m nc m' nc'] by auto

lemma resolve_loop_step:
  assumes "resolve_loop L requests_get (Str b # rest) m nc = Inr (m', nc')"
  obtains m1 nc1 where
    "resolve_loop L requests_get rest m1 nc1 = Inr (m', nc')" and "m \<le> m1" and
    "\<And>q len c. requests_get (''http://'' @ b @ ''/chain'') = Inr q \<Longrightarrow> status_code q = 200 \<Longrightarrow>
        json_length q = Inr len \<Longrightarrow> json_chain q = Inr c \<Longrightarrow> valid_chain L c = Inr True \<Longrightarrow>
        len \<le> m1"
proof -
  from assms obtain q where q: "requests_get (''http://'' @ b @ ''/chain'') = Inr q"
    by (cases "requests_get (''http://'' @ b @ ''/chain'')") (simp_all add: str_concat_def)
  show thesis
  proof (cases "status_code q = 200")
    case False
    have "resolve_loop L requests_get rest m nc = Inr (m', nc')"
      using assms q False by (simp add: str_concat_def)
    then show thesis
      using q False by (intro that [of m nc]) auto
  next
    case True
    from assms q True obtain len0 c0 where
      len0: "json_length q = Inr len0" and c0: "json_chain q = Inr c0"
      by (auto simp: str_concat_def split: sum.splits)
    show thesis
    proof (cases "m < len0")
      case False
      have "resolve_loop L requests_get rest m nc = Inr (m', nc')"
        using assms q True len0 c0 False by (simp add: str_concat_def)
      then show thesis
        using q len0 False by (intro that [of m nc]) auto
    next
      case longer: True
      from assms q True len0 c0 longer obtain ok where ok: "valid_chain L c0 = Inr ok"
        by (auto simp: str_concat_def split: sum.splits)
      show thesis
      proof (cases ok)
        case True
        have "resolve_loop L requests_get rest len0 (Some c0) = Inr (m', nc')"
          using assms q \<open>status_code q = 200\<close> len0 c0 longer ok True
          by (simp add: str_concat_def)
        then show thesis
          using q len0 longer by (intro that [of len0 "Some c0"]) auto
      next
        case False
        have "resolve_loop L requests_get rest m nc = Inr (m', nc')"
          using assms q \<open>status_code q = 200\<close> len0 c0 longer ok False
          by (simp add: str_concat_def)
        then show thesis
          using q c0 ok False by (intro that [of m nc]) auto
      qed
    qed
  qed
qed

lemma resolve_loop_greatest:
  "resolve_loop L requests_get nodes m nc = Inr (m', nc') \<Longrightarrow>
   Str a \<in> set nodes \<Longrightarrow>
   requests_get (''http://'' @ a @ ''/chain'') = Inr r \<Longrightarrow> status_code r = 200 \<Longrightarrow>
   json_length r = Inr len \<Longrightarrow> json_chain r = Inr c \<Longrightarrow> valid_chain L c = Inr True \<Longrightarrow>
   len \<le> m'"
proof (induction nodes arbitrary: m nc)
  case Nil
  then show ?case by simp
next
  case (Cons node rest)
  from Cons.prems(1) obtain b where node: "node = Str b"
    by (cases node) (simp_all add: str_concat_def)
  from Cons.prems(1) obtain m1 nc1 where
    tail: "resolve_loop L requests_get rest m1 nc1 = Inr (m', nc')" and
    here: "\<And>q len c. requests_get (''http://'' @ b @ ''/chain'') = Inr q \<Longrightarrow>
        status_code q = 200 \<Longrightarrow> json_length q = Inr len \<Longrightarrow> json_chain q = Inr c \<Longrightarrow>
        valid_chain L c = Inr True \<Longrightarrow> len \<le> m1"
    unfolding node by (rule resolve_loop_step) blast
  show ?case
  proof (cases "Str a \<in> set rest")
    case True
    from Cons.IH [OF tail True Cons.prems(3-7)] show ?thesis .
  next
    case False
    then have "b = a" using Cons.prems(2) node by simp
    then have "len \<le> m1" using here Cons.prems(3-7) by blast
    also have "m1 \<le> m'" using tail by (rule resolve_loop_mono)
    finally show ?thesis .
  qed
qed

text \<open>
  A chain of the genesis block and one block that holds at most the mint transaction is
  accepted when the block carries the hash of the genesis block and a nonce that
  qualifies over the empty list of transactions.
\<close>

lemma valid_chain_reward_only:
  "hash L (Dict g) = Inr (previous_hash b) \<Longrightarrow>
   length (transactions b) \<le> 1 \<Longrightarrow>
   valid_proof L [] (previous_hash b) (nonce b) MINING_DIFFICULTY \<Longrightarrow>
   valid_chain L [g, b] = Inr True"
  by (cases "transactions b") (auto simp: valid_chain_def)

end
